theory Spec2Isabelle
  imports Complex_Main "HOL-Library.Multiset" "HOL-Library.AList" "HOL-Library.Log_Nat"
begin

section \<open>Simple Investor Portfolio: valuation and time-series engine\<close>

text \<open>
  A shallow embedding of the price lookup, valuation, timeline, goal projection and import
  code of \<^verbatim>\<open>index.js\<close>.

  Conventions of the model:
  \<^item> the module-level variables \<^verbatim>\<open>etfs\<close> and \<^verbatim>\<open>purchases\<close> are passed to every function
    that reads them;
  \<^item> timestamps (epoch milliseconds) are \<open>int\<close>; prices, quantities and money amounts are
    JavaScript numbers, modelled as exact \<open>real\<close> numbers (binary rounding, NaN and the
    infinities of IEEE doubles are outside the model), except in \<^verbatim>\<open>monthsToReach\<close>, whose
    result is an integer count that depends on the rounding of the division: there the
    numbers are binary64 values and the division rounds as IEEE 754 prescribes;
  \<^item> \<^verbatim>\<open>null\<close> as the result of a lookup is \<open>None\<close>;
  \<^item> \<^verbatim>\<open>Array.prototype.sort\<close> with the comparator \<^verbatim>\<open>(a, b) => a.ts - b.ts\<close> is the stable
    sort by the key \<open>ts\<close> (the language standard requires stability), that is \<open>sort_key ts\<close>.
\<close>

subsection \<open>Data model\<close>

text \<open>
  \<^verbatim>\<open>etfs: [{symbol, name, prices:[{ts, price}]}]\<close> and \<^verbatim>\<open>purchases: [{ts, symbol, qty}]\<close>.
  A purchase has fields \<^verbatim>\<open>ts\<close> and \<^verbatim>\<open>symbol\<close> too; record fields are global names, so
  the purchase's are \<open>buy_ts\<close> and \<open>buy_symbol\<close>.
\<close>

record price_obs =
  ts :: int
  price :: real

record etf =
  symbol :: string
  name :: string
  prices :: "price_obs list"

record purchase =
  buy_ts :: int
  buy_symbol :: string
  qty :: real

subsection \<open>Price lookup\<close>

text \<open>
  \<^verbatim>\<open>e.prices.reduce((a, b) => (a.ts > b.ts ? a : b))\<close>: a left fold without initial value,
  the first element is the start.
\<close>

definition later_obs :: "price_obs \<Rightarrow> price_obs \<Rightarrow> price_obs" where
  "later_obs a b = (if ts a > ts b then a else b)"

definition latestPrice :: "etf list \<Rightarrow> string \<Rightarrow> real option" where
  "latestPrice etfs symb =
     (case find (\<lambda>x. symbol x = symb) etfs of
        None \<Rightarrow> None
      | Some e \<Rightarrow>
          (case prices e of
             [] \<Rightarrow> None
           | a # bs \<Rightarrow> Some (price (foldl later_obs a bs))))"

text \<open>
  The first loop of \<^verbatim>\<open>priceAt\<close>:
  \<^verbatim>\<open>for (const p of sorted) { if (p.ts <= ts) candidate = p; else break; }\<close>
\<close>

fun candidate_loop :: "int \<Rightarrow> price_obs option \<Rightarrow> price_obs list \<Rightarrow> price_obs option" where
  "candidate_loop t candidate [] = candidate"
| "candidate_loop t candidate (p # ps) =
     (if ts p \<le> t then candidate_loop t (Some p) ps else candidate)"

text \<open>
  The second loop:
  \<^verbatim>\<open>for (const p of sorted) { const diff = Math.abs(p.ts - ts);
      if (diff < minDiff) { minDiff = diff; closest = p; } }\<close>
\<close>

fun closest_loop :: "int \<Rightarrow> price_obs \<Rightarrow> int \<Rightarrow> price_obs list \<Rightarrow> price_obs" where
  "closest_loop t closest minDiff [] = closest"
| "closest_loop t closest minDiff (p # ps) =
     (let diff = \<bar>ts p - t\<bar>
      in if diff < minDiff then closest_loop t p diff ps
         else closest_loop t closest minDiff ps)"

text \<open>
  The body of \<^verbatim>\<open>priceAt\<close> after the instrument was found with a non-empty price list:
  the argument \<open>srt\<close> is the sorted copy (\<^verbatim>\<open>sorted\<close> in the source). \<^verbatim>\<open>closest?.price ?? null\<close> is \<open>None\<close> when
  \<^verbatim>\<open>sorted[0]\<close> is undefined.
\<close>

definition resolve_sorted :: "price_obs list \<Rightarrow> int \<Rightarrow> real option" where
  "resolve_sorted srt t =
     (case candidate_loop t None srt of
        Some candidate \<Rightarrow> Some (price candidate)
      | None \<Rightarrow>
          (case srt of
             [] \<Rightarrow> None
           | s0 # _ \<Rightarrow> Some (price (closest_loop t s0 \<bar>ts s0 - t\<bar> srt))))"

definition priceAt :: "etf list \<Rightarrow> string \<Rightarrow> int \<Rightarrow> real option" where
  "priceAt etfs symb t =
     (case find (\<lambda>x. symbol x = symb) etfs of
        None \<Rightarrow> None
      | Some e \<Rightarrow>
          if prices e = [] then None
          else resolve_sorted (sort_key ts (prices e)) t)"

subsection \<open>Calculations\<close>

record totals =
  invested :: real
  current :: real
  pl :: real
  plPct :: real

text \<open>The loop of \<^verbatim>\<open>computeTotals\<close> over the purchases, on the pair (invested, current).\<close>

fun totals_loop :: "etf list \<Rightarrow> real \<times> real \<Rightarrow> purchase list \<Rightarrow> real \<times> real" where
  "totals_loop etfs (inv_acc, cur_acc) [] = (inv_acc, cur_acc)"
| "totals_loop etfs (inv_acc, cur_acc) (p # ps) =
     (let unitAtBuy = priceAt etfs (buy_symbol p) (buy_ts p);
          unitNow = latestPrice etfs (buy_symbol p);
          inv_acc' = (case unitAtBuy of Some u \<Rightarrow> inv_acc + qty p * u | None \<Rightarrow> inv_acc);
          cur_acc' = (case unitNow of Some u \<Rightarrow> cur_acc + qty p * u | None \<Rightarrow> cur_acc)
      in totals_loop etfs (inv_acc', cur_acc') ps)"

definition computeTotals :: "etf list \<Rightarrow> purchase list \<Rightarrow> totals" where
  "computeTotals etfs purchases =
     (let (inv_acc, cur_acc) = totals_loop etfs (0, 0) purchases;
          pl_val = cur_acc - inv_acc;
          plPct_val = (if inv_acc > 0 then (pl_val / inv_acc) * 100 else 0)
      in \<lparr>invested = inv_acc, current = cur_acc, pl = pl_val, plPct = plPct_val\<rparr>)"

subsection \<open>Goal projection on binary64 numbers\<close>

text \<open>
  A finite JavaScript number is an IEEE 754 binary64 value: \<open>mantissa * 2 ^ exponent\<close> with
  \<open>\<bar>mantissa\<bar> < 2 ^ 53\<close> and \<open>- 1074 \<le> exponent \<le> 971\<close>. The goal form calls
  \<^verbatim>\<open>monthsToReach\<close> with finite numbers only (it returns before the call unless
  \<^verbatim>\<open>isFinite\<close> holds of both).
\<close>

record double =
  mantissa :: int
  exponent :: int


text \<open>
  The division \<^verbatim>\<open>remaining / m\<close> of a non-negative by a positive number, as IEEE 754
  prescribes it: the exact quotient \<open>n / d\<close> is rounded to the nearest binary64 value,
  a tie to the even mantissa; the result is \<^verbatim>\<open>Infinity\<close> when the rounded quotient
  reaches \<open>2 ^ 1024\<close>. \<open>round_half_even n d\<close> is the integer nearest to \<open>n / d\<close>,
  \<open>floor_log2 n d\<close> the integer part of the binary logarithm of \<open>n / d\<close>; the
  result's exponent is that minus 52, and at least \<open>- 1074\<close> (subnormal results).
\<close>

definition round_half_even :: "int \<Rightarrow> int \<Rightarrow> int" where
  "round_half_even n d =
     (let f = n div d; r = n mod d
      in if 2 * r < d then f
         else if d < 2 * r then f + 1
         else if even f then f else f + 1)"

definition floor_log2 :: "int \<Rightarrow> int \<Rightarrow> int" where
  "floor_log2 n d =
     (let k = int (floorlog 2 (nat n)) - int (floorlog 2 (nat d))
      in if (if 0 \<le> k then d * 2 ^ nat k \<le> n else d \<le> n * 2 ^ nat (- k)) then k
         else k - 1)"

text \<open>What a division returns: a finite number or \<^verbatim>\<open>Infinity\<close>.\<close>

datatype number = Fin double | PosInf

text \<open>
  The exact quotient of \<open>x\<close> by \<open>y\<close> as a fraction of integers,
  \<open>quotient_num x y / quotient_den x y\<close>, and the integer nearest to \<open>n / d / 2 ^ e\<close>.
\<close>

definition quotient_num :: "double \<Rightarrow> double \<Rightarrow> int" where
  "quotient_num x y =
     (let s = exponent x - exponent y
      in if 0 \<le> s then mantissa x * 2 ^ nat s else mantissa x)"

definition quotient_den :: "double \<Rightarrow> double \<Rightarrow> int" where
  "quotient_den x y =
     (let s = exponent x - exponent y
      in if 0 \<le> s then mantissa y else mantissa y * 2 ^ nat (- s))"

definition round_scaled :: "int \<Rightarrow> int \<Rightarrow> int \<Rightarrow> int" where
  "round_scaled n d e =
     (if 0 \<le> e then round_half_even n (d * 2 ^ nat e)
      else round_half_even (n * 2 ^ nat (- e)) d)"

definition js_div :: "double \<Rightarrow> double \<Rightarrow> number" where
  "js_div x y =
     (if mantissa x = 0 then Fin \<lparr>mantissa = 0, exponent = 0\<rparr>
      else
        (let n = quotient_num x y;
             d = quotient_den x y;
             e = max (- 1074) (floor_log2 n d - 52);
             m = round_scaled n d e
         in if 971 < e \<or> (e = 971 \<and> 2 ^ 53 \<le> m) then PosInf
            else Fin \<lparr>mantissa = m, exponent = e\<rparr>))"

text \<open>\<^verbatim>\<open>Math.ceil\<close> of a finite number: an integer.\<close>

definition math_ceil :: "double \<Rightarrow> int" where
  "math_ceil x =
     (if 0 \<le> exponent x then mantissa x * 2 ^ nat (exponent x)
      else - ((- mantissa x) div 2 ^ nat (- exponent x)))"

text \<open>
  The result of \<^verbatim>\<open>monthsToReach\<close>: \<^verbatim>\<open>Infinity\<close> or the integer \<^verbatim>\<open>Math.ceil\<close> returns.
\<close>

datatype months = Finite int | Infinity

text \<open>\<^verbatim>\<open>Math.max(0, t)\<close>.\<close>

definition math_max_zero :: "double \<Rightarrow> double" where
  "math_max_zero t = (if 0 < mantissa t then t else \<lparr>mantissa = 0, exponent = 0\<rparr>)"

text \<open>
  \<^verbatim>\<open>monthsToReach\<close>. On a finite number \<^verbatim>\<open>+target || 0\<close> is the number itself (zero stays
  zero). \<^verbatim>\<open>m <= 0\<close> and \<^verbatim>\<open>0 < t\<close> are read off the mantissa's sign.
  \<^verbatim>\<open>Math.ceil(Infinity)\<close> is \<^verbatim>\<open>Infinity\<close>.
\<close>

definition monthsToReach :: "double \<Rightarrow> double \<Rightarrow> months" where
  "monthsToReach target monthly =
     (let t = target; m = monthly
      in if mantissa m \<le> 0 then Infinity
         else
           (let remaining = math_max_zero t
            in case js_div remaining m of
                 PosInf \<Rightarrow> Infinity
               | Fin q \<Rightarrow> Finite (math_ceil q)))"

subsection \<open>The spec's valuation sums\<close>

text \<open>
  The contribution of one purchase to a sum: quantity times unit price, nothing when the
  price is null.
\<close>

definition contribution :: "real \<Rightarrow> real option \<Rightarrow> real" where
  "contribution q unit = (case unit of Some u \<Rightarrow> q * u | None \<Rightarrow> 0)"

definition costBasis :: "etf list \<Rightarrow> purchase list \<Rightarrow> real" where
  "costBasis etfs purchases =
     (\<Sum>p\<leftarrow>purchases. contribution (qty p) (priceAt etfs (buy_symbol p) (buy_ts p)))"

definition currentValue :: "etf list \<Rightarrow> purchase list \<Rightarrow> real" where
  "currentValue etfs purchases =
     (\<Sum>p\<leftarrow>purchases. contribution (qty p) (latestPrice etfs (buy_symbol p)))"

subsection \<open>Portfolio chart: timeline and invested series\<close>

text \<open>
  From \<^verbatim>\<open>renderPortfolioChart\<close>. The JavaScript \<^verbatim>\<open>Set\<close> named \<^verbatim>\<open>times\<close> keeps its elements
  in insertion order and ignores a value it already holds: a list without repetition
  (\<open>times_set\<close>, since \<open>times\<close> is multiplication in HOL).
\<close>

definition set_add :: "int \<Rightarrow> int list \<Rightarrow> int list" where
  "set_add x times_set = (if x \<in> set times_set then times_set else times_set @ [x])"

text \<open>
  \<^verbatim>\<open>etfs.forEach(e => (e.prices||[]).forEach(p => times.add(p.ts)));\<close>
  \<^verbatim>\<open>purchases.forEach(p => times.add(p.ts));\<close>
\<close>

definition timeline_times :: "etf list \<Rightarrow> purchase list \<Rightarrow> int list" where
  "timeline_times etfs purchases =
     (let times_set =
            foldl (\<lambda>times_set e.
                     foldl (\<lambda>times_set p. set_add (ts p) times_set) times_set (prices e))
              [] etfs
      in foldl (\<lambda>times_set p. set_add (buy_ts p) times_set) times_set purchases)"

text \<open>
  \<^verbatim>\<open>let points = Array.from(times).map(Number).sort((a,b)=>a-b);\<close>
  \<^verbatim>\<open>if (from!=null) points = points.filter(t=>t>=from);\<close>
  \<^verbatim>\<open>if (to!=null) points = points.filter(t=>t<=to);\<close>
  The bounds come from the two date inputs of the page, null when empty.
\<close>

definition timeline_points :: "etf list \<Rightarrow> purchase list \<Rightarrow> int option \<Rightarrow> int option \<Rightarrow> int list" where
  "timeline_points etfs purchases from_t to_t =
     (let points = sort (timeline_times etfs purchases);
          points = (case from_t of Some f \<Rightarrow> filter (\<lambda>t. t \<ge> f) points | None \<Rightarrow> points);
          points = (case to_t of Some u \<Rightarrow> filter (\<lambda>t. t \<le> u) points | None \<Rightarrow> points)
      in points)"

text \<open>
  The invested series. \<^verbatim>\<open>investedTotal\<close> is declared once, before \<^verbatim>\<open>points.map\<close>, and
  the callback adds to it for every purchase with \<^verbatim>\<open>p.ts <= t\<close>:
  \<^verbatim>\<open>let investedTotal = 0;\<close>
  \<^verbatim>\<open>const seriesInvested = points.map(t => {\<close>
  \<^verbatim>\<open>  purchases.filter(p=>p.ts<=t).forEach(p=>{\<close>
  \<^verbatim>\<open>    const unitAtBuy = priceAt(p.symbol, p.ts);\<close>
  \<^verbatim>\<open>    if (unitAtBuy!=null) investedTotal += p.qty * unitAtBuy; });\<close>
  \<^verbatim>\<open>  return { x: t, y: investedTotal }; });\<close>
  A point \<^verbatim>\<open>{x, y}\<close> is the pair \<open>(x, y)\<close>.
\<close>

definition add_cost :: "etf list \<Rightarrow> real \<Rightarrow> purchase \<Rightarrow> real" where
  "add_cost etfs investedTotal p =
     (case priceAt etfs (buy_symbol p) (buy_ts p) of
        Some unitAtBuy \<Rightarrow> investedTotal + qty p * unitAtBuy
      | None \<Rightarrow> investedTotal)"

fun seriesInvested_from :: "etf list \<Rightarrow> purchase list \<Rightarrow> real \<Rightarrow> int list \<Rightarrow> (int \<times> real) list" where
  "seriesInvested_from etfs purchases investedTotal [] = []"
| "seriesInvested_from etfs purchases investedTotal (t # rest) =
     (let investedTotal' =
            foldl (add_cost etfs) investedTotal (filter (\<lambda>p. buy_ts p \<le> t) purchases)
      in (t, investedTotal') # seriesInvested_from etfs purchases investedTotal' rest)"

definition seriesInvested :: "etf list \<Rightarrow> purchase list \<Rightarrow> int list \<Rightarrow> (int \<times> real) list" where
  "seriesInvested etfs purchases points = seriesInvested_from etfs purchases 0 points"

text \<open>
  The spec's \<^verbatim>\<open>investedAt(purchases, t)\<close>, from its words: the cost basis of the purchases
  with timestamp at most \<open>t\<close>, each priced at its own time. The code has no such
  function.
\<close>

definition investedAt :: "etf list \<Rightarrow> purchase list \<Rightarrow> int \<Rightarrow> real" where
  "investedAt etfs purchases t = costBasis etfs (filter (\<lambda>p. buy_ts p \<le> t) purchases)"

subsection \<open>Lookups and totals over a store of arrays\<close>

text \<open>
  To state that the lookups leave the stored data alone, the price arrays live in a store:
  \<open>h_arrays\<close> holds every array allocated so far, an address is an index, and an
  instrument object refers to its price array by address. \<^verbatim>\<open>[...e.prices]\<close> allocates a
  new array, \<^verbatim>\<open>.sort\<close> overwrites the array it is called on. The functions are those
  above, returning the store as well.
\<close>

type_synonym addr = nat

record etf_obj =
  o_symbol :: string
  o_name :: string
  o_prices :: addr

record heap_state =
  h_etfs :: "etf_obj list"
  h_purchases :: "purchase list"
  h_arrays :: "price_obs list list"

definition array_copy :: "addr \<Rightarrow> heap_state \<Rightarrow> addr \<times> heap_state" where
  "array_copy a st = (length (h_arrays st), st\<lparr>h_arrays := h_arrays st @ [h_arrays st ! a]\<rparr>)"

definition array_sort :: "addr \<Rightarrow> heap_state \<Rightarrow> heap_state" where
  "array_sort a st = st\<lparr>h_arrays := (h_arrays st)[a := sort_key ts (h_arrays st ! a)]\<rparr>"

definition latestPrice_st :: "string \<Rightarrow> heap_state \<Rightarrow> real option \<times> heap_state" where
  "latestPrice_st symb st =
     (case find (\<lambda>x. o_symbol x = symb) (h_etfs st) of
        None \<Rightarrow> (None, st)
      | Some e \<Rightarrow>
          (case h_arrays st ! o_prices e of
             [] \<Rightarrow> (None, st)
           | a # bs \<Rightarrow> (Some (price (foldl later_obs a bs)), st)))"

definition priceAt_st :: "string \<Rightarrow> int \<Rightarrow> heap_state \<Rightarrow> real option \<times> heap_state" where
  "priceAt_st symb t st =
     (case find (\<lambda>x. o_symbol x = symb) (h_etfs st) of
        None \<Rightarrow> (None, st)
      | Some e \<Rightarrow>
          if h_arrays st ! o_prices e = [] then (None, st)
          else
            (let (sorted_ref, st1) = array_copy (o_prices e) st;
                 st2 = array_sort sorted_ref st1
             in (resolve_sorted (h_arrays st2 ! sorted_ref) t, st2)))"

fun totals_loop_st :: "real \<times> real \<Rightarrow> purchase list \<Rightarrow> heap_state \<Rightarrow> (real \<times> real) \<times> heap_state" where
  "totals_loop_st (inv_acc, cur_acc) [] st = ((inv_acc, cur_acc), st)"
| "totals_loop_st (inv_acc, cur_acc) (p # ps) st =
     (let (unitAtBuy, st1) = priceAt_st (buy_symbol p) (buy_ts p) st;
          (unitNow, st2) = latestPrice_st (buy_symbol p) st1;
          inv_acc' = (case unitAtBuy of Some u \<Rightarrow> inv_acc + qty p * u | None \<Rightarrow> inv_acc);
          cur_acc' = (case unitNow of Some u \<Rightarrow> cur_acc + qty p * u | None \<Rightarrow> cur_acc)
      in totals_loop_st (inv_acc', cur_acc') ps st2)"

definition computeTotals_st :: "heap_state \<Rightarrow> totals \<times> heap_state" where
  "computeTotals_st st =
     (let ((inv_acc, cur_acc), st') = totals_loop_st (0, 0) (h_purchases st) st;
          pl_val = cur_acc - inv_acc;
          plPct_val = (if inv_acc > 0 then (pl_val / inv_acc) * 100 else 0)
      in (\<lparr>invested = inv_acc, current = cur_acc, pl = pl_val, plPct = plPct_val\<rparr>, st'))"

text \<open>
  Nothing that existed before the call changed: the instrument objects, the purchases and
  every array allocated before, elements and order.
\<close>

definition preserved :: "heap_state \<Rightarrow> heap_state \<Rightarrow> bool" where
  "preserved st st' \<longleftrightarrow>
     h_etfs st' = h_etfs st \<and> h_purchases st' = h_purchases st
     \<and> take (length (h_arrays st)) (h_arrays st') = h_arrays st"

text \<open>The instruments as the functions above take them, read off the store.\<close>

definition view_etf :: "heap_state \<Rightarrow> etf_obj \<Rightarrow> etf" where
  "view_etf st e = \<lparr>symbol = o_symbol e, name = o_name e, prices = h_arrays st ! o_prices e\<rparr>"

definition view_etfs :: "heap_state \<Rightarrow> etf list" where
  "view_etfs st = map (view_etf st) (h_etfs st)"

definition wf_heap :: "heap_state \<Rightarrow> bool" where
  "wf_heap st = list_all (\<lambda>e. o_prices e < length (h_arrays st)) (h_etfs st)"

text \<open>An instrument whose price list is stored in descending order.\<close>

definition unsorted_heap :: heap_state where
  "unsorted_heap =
     \<lparr>h_etfs = [\<lparr>o_symbol = ''AAA'', o_name = ''AAA'', o_prices = 0\<rparr>],
      h_purchases = [\<lparr>buy_ts = 150, buy_symbol = ''AAA'', qty = 5\<rparr>],
      h_arrays = [[\<lparr>ts = 200, price = 20\<rparr>, \<lparr>ts = 100, price = 10\<rparr>]]\<rparr>"

subsection \<open>Import\<close>

text \<open>
  The value \<^verbatim>\<open>JSON.parse\<close> returns. An object lists each key once, as the parser leaves
  it.
\<close>

datatype json =
    JNull
  | JBool bool
  | JNum real
  | JStr string
  | JArr "json list"
  | JObj "(string \<times> json) list"

text \<open>
  Reading a property, \<^verbatim>\<open>data.etfs\<close>: \<open>None\<close> is \<^verbatim>\<open>undefined\<close>. Only the keys
  \<^verbatim>\<open>etfs\<close>, \<^verbatim>\<open>purchases\<close>, \<^verbatim>\<open>goals\<close>, \<^verbatim>\<open>ui\<close>, \<^verbatim>\<open>expandedEtfs\<close> and \<^verbatim>\<open>active\<close> are read, and
  no array, string, number or boolean has one of those.
\<close>

fun get_prop :: "json \<Rightarrow> string \<Rightarrow> json option" where
  "get_prop (JObj kvs) k = map_of kvs k"
| "get_prop _ k = None"

text \<open>
  Truthiness (\<^verbatim>\<open>!data\<close>, \<^verbatim>\<open>a || b\<close>), \<^verbatim>\<open>typeof data === 'object'\<close> (true of null, arrays
  and objects) and \<^verbatim>\<open>Array.isArray\<close>.
\<close>

fun truthy :: "json option \<Rightarrow> bool" where
  "truthy None = False"
| "truthy (Some JNull) = False"
| "truthy (Some (JBool b)) = b"
| "truthy (Some (JNum x)) = (x \<noteq> 0)"
| "truthy (Some (JStr s)) = (s \<noteq> [])"
| "truthy (Some (JArr _)) = True"
| "truthy (Some (JObj _)) = True"

fun typeof_object :: "json \<Rightarrow> bool" where
  "typeof_object JNull = True"
| "typeof_object (JArr _) = True"
| "typeof_object (JObj _) = True"
| "typeof_object _ = False"

fun isArray :: "json option \<Rightarrow> bool" where
  "isArray (Some (JArr _)) = True"
| "isArray _ = False"

fun js_or :: "json option \<Rightarrow> json \<Rightarrow> json" where
  "js_or None d = d"
| "js_or (Some v) d = (if truthy (Some v) then v else d)"

text \<open>
  Assigning a property, \<^verbatim>\<open>ui.expandedEtfs = []\<close>. The script is not in strict mode: on a
  number, string or boolean the assignment does nothing. An array would keep the property
  beside its elements, where \<^verbatim>\<open>JSON.stringify\<close> does not see it; the model leaves the
  array as it is.
\<close>

fun set_prop :: "json \<Rightarrow> string \<Rightarrow> json \<Rightarrow> json" where
  "set_prop (JObj kvs) k v = JObj (AList.update k v kvs)"
| "set_prop j k v = j"

text \<open>
  The two messages \<^verbatim>\<open>importAll\<close> shows with \<^verbatim>\<open>alert\<close>: that the import succeeded, and
  that the file could not be imported.
\<close>

datatype alert_msg = ImportSucceeded | ImportFailed

text \<open>
  The module-level variables \<^verbatim>\<open>etfs\<close>, \<^verbatim>\<open>purchases\<close>, \<^verbatim>\<open>goals\<close> and \<^verbatim>\<open>ui\<close> as the import
  sees them (whatever the document holds), the browser's \<^verbatim>\<open>localStorage\<close>, and the
  alerts shown so far. \<^verbatim>\<open>storage.set\<close> stores \<^verbatim>\<open>JSON.stringify(val)\<close>; the model keeps the
  value that string denotes.
\<close>

record app_state =
  v_etfs :: json
  v_purchases :: json
  v_goals :: json
  v_ui :: json
  localStorage :: "string \<Rightarrow> json option"
  alerts :: "alert_msg list"

definition storage_set :: "string \<Rightarrow> json \<Rightarrow> app_state \<Rightarrow> app_state" where
  "storage_set key val st = st\<lparr>localStorage := (localStorage st)(key \<mapsto> val)\<rparr>"

definition saveEtfs :: "app_state \<Rightarrow> app_state" where
  "saveEtfs st = storage_set ''sip_etfs'' (v_etfs st) st"

definition savePurchases :: "app_state \<Rightarrow> app_state" where
  "savePurchases st = storage_set ''sip_purchases'' (v_purchases st) st"

definition saveGoals :: "app_state \<Rightarrow> app_state" where
  "saveGoals st = storage_set ''sip_goals'' (v_goals st) st"

definition saveUi :: "app_state \<Rightarrow> app_state" where
  "saveUi st = storage_set ''sip_ui'' (v_ui st) st"

text \<open>
  The \<^verbatim>\<open>catch\<close> branch: \<^verbatim>\<open>console.error(err)\<close> and the failure alert.
\<close>

definition import_failed :: "app_state \<Rightarrow> app_state" where
  "import_failed st = st\<lparr>alerts := alerts st @ [ImportFailed]\<rparr>"

text \<open>
  The \<^verbatim>\<open>onload\<close> handler of \<^verbatim>\<open>importAll\<close>. \<open>parsed\<close> is the outcome of
  \<^verbatim>\<open>JSON.parse(reader.result)\<close>, \<open>None\<close> when it throws. \<^verbatim>\<open>refreshPurchaseSymbols\<close> and
  the rendering in \<^verbatim>\<open>setActiveTab\<close> work on the page and can throw on the imported
  data; whether they do is given by \<open>refresh_throws\<close> and \<open>render_throws\<close>.
  \<^verbatim>\<open>setActiveTab(tab)\<close> first does \<^verbatim>\<open>ui.active = tab; saveUi();\<close>. Reading
  \<^verbatim>\<open>ui.expandedEtfs\<close> throws when \<^verbatim>\<open>ui\<close> is null, which only a null \<^verbatim>\<open>ui\<close> from before
  the import can cause (\<^verbatim>\<open>data.ui || ui\<close> skips a null \<^verbatim>\<open>data.ui\<close>).
\<close>

definition importAll :: "bool \<Rightarrow> bool \<Rightarrow> json option \<Rightarrow> app_state \<Rightarrow> app_state" where
  "importAll refresh_throws render_throws parsed st =
     (case parsed of
        None \<Rightarrow> import_failed st
      | Some data \<Rightarrow>
          if \<not> truthy (Some data) \<or> \<not> typeof_object data then import_failed st
          else if \<not> isArray (get_prop data ''etfs'') \<or> \<not> isArray (get_prop data ''purchases'')
          then import_failed st
          else
            (let st1 = st\<lparr>v_etfs := js_or (get_prop data ''etfs'') (JArr [])\<rparr>;
                 st2 = st1\<lparr>v_purchases := js_or (get_prop data ''purchases'') (JArr [])\<rparr>;
                 st3 = st2\<lparr>v_goals := (case get_prop data ''goals'' of
                                          Some (JArr gs) \<Rightarrow> JArr gs
                                        | _ \<Rightarrow> JArr [])\<rparr>;
                 st4 = st3\<lparr>v_ui := js_or (get_prop data ''ui'') (v_ui st3)\<rparr>
             in if v_ui st4 = JNull then import_failed st4
                else
                  (let st5 = (if \<not> isArray (get_prop (v_ui st4) ''expandedEtfs'')
                              then st4\<lparr>v_ui := set_prop (v_ui st4) ''expandedEtfs'' (JArr [])\<rparr>
                              else st4);
                       st6 = saveUi (saveGoals (savePurchases (saveEtfs st5)))
                   in if refresh_throws then import_failed st6
                      else
                        (let tab = js_or (get_prop (v_ui st6) ''active'') (JStr ''etfs'');
                             st7 = saveUi (st6\<lparr>v_ui := set_prop (v_ui st6) ''active'' tab\<rparr>)
                         in if render_throws then import_failed st7
                            else st7\<lparr>alerts := alerts st7 @ [ImportSucceeded]\<rparr>))))"

text \<open>
  The spec's validation, from its words: \<^verbatim>\<open>etfs\<close> and \<^verbatim>\<open>purchases\<close> are present as
  sequences. An input that does not parse is no document.
\<close>

definition valid_document :: "json option \<Rightarrow> bool" where
  "valid_document parsed =
     (case parsed of
        None \<Rightarrow> False
      | Some data \<Rightarrow> isArray (get_prop data ''etfs'') \<and> isArray (get_prop data ''purchases''))"

text \<open>A state before an import: one instrument without prices, nothing else.\<close>

definition state0 :: app_state where
  "state0 =
     \<lparr>v_etfs = JArr [JObj [(''symbol'', JStr ''AAA''), (''name'', JStr ''AAA''),
                            (''prices'', JArr [])]],
      v_purchases = JArr [], v_goals = JArr [],
      v_ui = JObj [(''active'', JStr ''dashboard''), (''expandedEtfs'', JArr [])],
      localStorage = Map.empty, alerts = []\<rparr>"

subsection \<open>Scenario\<close>

text \<open>The scenario of the spec: AAA observed at 100 (10) and 200 (20), 5 units bought at 150.\<close>

definition scenario_etfs :: "etf list" where
  "scenario_etfs =
     [\<lparr>symbol = ''AAA'', name = ''AAA'',
       prices = [\<lparr>ts = 100, price = 10\<rparr>, \<lparr>ts = 200, price = 20\<rparr>]\<rparr>]"

definition scenario_purchases :: "purchase list" where
  "scenario_purchases = [\<lparr>buy_ts = 150, buy_symbol = ''AAA'', qty = 5\<rparr>]"

subsection \<open>What the spec asks of a resolved observation\<close>

text \<open>
  The observation the as-of lookup is to return: the latest one at or before \<open>t\<close>.
  The observation the fallback is to return: one at minimal distance from \<open>t\<close>, and no
  later than any other at that distance.
\<close>

definition latest_at_or_before :: "price_obs list \<Rightarrow> int \<Rightarrow> price_obs \<Rightarrow> bool" where
  "latest_at_or_before obs t p \<longleftrightarrow>
     p \<in> set obs \<and> ts p \<le> t \<and> (\<forall>q\<in>set obs. ts q \<le> t \<longrightarrow> ts q \<le> ts p)"

definition nearest_preferring_earlier :: "price_obs list \<Rightarrow> int \<Rightarrow> price_obs \<Rightarrow> bool" where
  "nearest_preferring_earlier obs t p \<longleftrightarrow>
     p \<in> set obs \<and>
     (\<forall>q\<in>set obs. \<bar>ts p - t\<bar> \<le> \<bar>ts q - t\<bar> \<and> (\<bar>ts q - t\<bar> = \<bar>ts p - t\<bar> \<longrightarrow> ts p \<le> ts q))"

section \<open>Properties\<close>

subsection \<open>Totals\<close>

lemma totals_loop_sums:
  "totals_loop etfs (a, b) ps = (a + costBasis etfs ps, b + currentValue etfs ps)"
  by (induction ps arbitrary: a b)
     (simp_all add: costBasis_def currentValue_def contribution_def Let_def
        split: option.splits)

lemma scenario_priceAt: "priceAt scenario_etfs ''AAA'' 150 = Some 10"
  by (simp add: priceAt_def scenario_etfs_def resolve_sorted_def)


lemma computeTotals_sums:
  "computeTotals etfs purchases =
      \<lparr>invested = costBasis etfs purchases, current = currentValue etfs purchases,
       pl = currentValue etfs purchases - costBasis etfs purchases,
       plPct = (if costBasis etfs purchases > 0
                then (currentValue etfs purchases - costBasis etfs purchases)
                     / costBasis etfs purchases * 100
                else 0)\<rparr>"
  by (simp add: computeTotals_def totals_loop_sums)


text \<open>
  C8. A purchase whose symbol is not found, or whose instrument has no observation,
  resolves to a null price in both lookups and contributes nothing to the totals: the
  totals are those of the remaining purchases. \<^verbatim>\<open>computeTotals\<close> has no failing branch.
\<close>

theorem missing_price_contributes_nothing:
  assumes "case find (\<lambda>x. symbol x = buy_symbol p) etfs of
             None \<Rightarrow> True | Some e \<Rightarrow> prices e = []"
  shows "priceAt etfs (buy_symbol p) (buy_ts p) = None
     \<and> latestPrice etfs (buy_symbol p) = None
     \<and> computeTotals etfs (ps1 @ p # ps2) = computeTotals etfs (ps1 @ ps2)"
proof -
  have a: "priceAt etfs (buy_symbol p) (buy_ts p) = None"
    using assms by (simp add: priceAt_def split: option.splits)
  have b: "latestPrice etfs (buy_symbol p) = None"
    using assms by (simp add: latestPrice_def split: option.splits)
  have "costBasis etfs (ps1 @ p # ps2) = costBasis etfs (ps1 @ ps2)"
    by (simp add: costBasis_def contribution_def a)
  moreover have "currentValue etfs (ps1 @ p # ps2) = currentValue etfs (ps1 @ ps2)"
    by (simp add: currentValue_def contribution_def b)
  ultimately show ?thesis
    using a b by (simp add: computeTotals_sums)
qed

theorem missing_price_contributes_nothing_witness:
  "(case find (\<lambda>x. symbol x = ''ZZZ'') scenario_etfs of None \<Rightarrow> True | Some e \<Rightarrow> prices e = [])
   \<and> priceAt scenario_etfs ''ZZZ'' 120 = None
   \<and> latestPrice scenario_etfs ''ZZZ'' = None
   \<and> computeTotals scenario_etfs
        (scenario_purchases @ [\<lparr>buy_ts = 120, buy_symbol = ''ZZZ'', qty = 7\<rparr>])
      = computeTotals scenario_etfs scenario_purchases"
  using missing_price_contributes_nothing
    [of "\<lparr>buy_ts = 120, buy_symbol = ''ZZZ'', qty = 7\<rparr>" scenario_etfs scenario_purchases "[]"]
  by (simp add: scenario_etfs_def)

subsection \<open>Price lookup\<close>

lemma candidate_loop_Some:
  "sorted (map ts xs) \<Longrightarrow> candidate_loop t c xs = Some p \<Longrightarrow>
     (c = Some p \<and> (\<forall>q\<in>set xs. t < ts q))
     \<or> (p \<in> set xs \<and> ts p \<le> t \<and> (\<forall>q\<in>set xs. ts q \<le> t \<longrightarrow> ts q \<le> ts p))"
proof (induction xs arbitrary: c)
  case Nil
  then show ?case by simp
next
  case (Cons x xs)
  show ?case
  proof (cases "ts x \<le> t")
    case True
    with Cons.prems have run: "candidate_loop t (Some x) xs = Some p" and srt: "sorted (map ts xs)"
      and low: "\<forall>q\<in>set xs. ts x \<le> ts q"
      by auto
    from Cons.IH [OF srt run] show ?thesis
    proof
      assume "Some x = Some p \<and> (\<forall>q\<in>set xs. t < ts q)"
      with True show ?thesis by auto
    next
      assume "p \<in> set xs \<and> ts p \<le> t \<and> (\<forall>q\<in>set xs. ts q \<le> t \<longrightarrow> ts q \<le> ts p)"
      with low show ?thesis by auto
    qed
  next
    case False
    with Cons.prems show ?thesis by fastforce
  qed
qed

lemma candidate_loop_keeps_Some:
  "candidate_loop t (Some c) xs \<noteq> None"
  by (induction xs arbitrary: c) auto

lemma candidate_loop_None:
  "sorted (map ts xs) \<Longrightarrow> candidate_loop t None xs = None \<Longrightarrow> \<forall>q\<in>set xs. t < ts q"
  by (cases xs) (auto simp: candidate_loop_keeps_Some split: if_splits)

lemma candidate_loop_all_before:
  "\<forall>q\<in>set xs. ts q \<le> t \<Longrightarrow> xs \<noteq> [] \<Longrightarrow> candidate_loop t c xs = Some (last xs)"
  by (induction xs arbitrary: c) auto

lemma candidate_loop_all_after:
  "\<forall>q\<in>set xs. t < ts q \<Longrightarrow> candidate_loop t c xs = c"
  by (cases xs) auto


lemma closest_loop_keep:
  "\<forall>p\<in>set xs. d \<le> \<bar>ts p - t\<bar> \<Longrightarrow> closest_loop t c d xs = c"
  by (induction xs) (auto simp: Let_def)

lemma later_obs_assoc: "later_obs (later_obs a b) c = later_obs a (later_obs b c)"
  by (simp add: later_obs_def)

lemma foldl_later_obs: "foldl later_obs (later_obs a b) xs = later_obs a (foldl later_obs b xs)"
  by (induction xs arbitrary: a b) (simp_all add: later_obs_assoc)

lemma last_insort_key:
  fixes f :: "'a \<Rightarrow> int"
  shows "sorted (map f ys) \<Longrightarrow>
   last (insort_key f x ys) = (if ys = [] then x else if f x > f (last ys) then x else last ys)"
proof (induction ys)
  case Nil
  then show ?case by simp
next
  case (Cons y ys)
  then have low: "\<forall>z\<in>set ys. f y \<le> f z" and srt: "sorted (map f ys)"
    by auto
  show ?case
  proof (cases "f x \<le> f y")
    case True
    have "f y \<le> f (last (y # ys))"
      using low by (cases ys) auto
    with True show ?thesis by simp
  next
    case False
    have ne: "insort_key f x ys \<noteq> []"
      by (cases ys) auto
    from False ne Cons.IH [OF srt] show ?thesis by auto
  qed
qed

lemma last_sort_key_Cons:
  "last (sort_key ts (a # bs)) = foldl later_obs a bs"
proof (induction bs arbitrary: a)
  case Nil
  then show ?case by simp
next
  case (Cons b bs)
  have "last (sort_key ts (a # b # bs)) = last (insort_key ts a (sort_key ts (b # bs)))"
    by simp
  also have "\<dots> = later_obs a (last (sort_key ts (b # bs)))"
  proof -
    have srt: "sorted (map ts (sort_key ts (b # bs)))"
      by (rule sorted_sort_key)
    have ne: "sort_key ts (b # bs) \<noteq> []"
      by (metis length_sort list.size(3) nat.distinct(1) length_Cons)
    show ?thesis
      by (simp only: last_insort_key [OF srt] ne if_False later_obs_def)
  qed
  also have "\<dots> = later_obs a (foldl later_obs b bs)"
    by (simp only: Cons.IH)
  also have "\<dots> = foldl later_obs a (b # bs)"
    by (simp add: foldl_later_obs)
  finally show ?case .
qed

lemma filter_key_distinct:
  "distinct (map f xs) \<Longrightarrow> k \<in> set xs \<Longrightarrow> filter (\<lambda>x. f k = f x) xs = [k]"
proof (induction xs)
  case Nil
  then show ?case by simp
next
  case (Cons x xs)
  show ?case
  proof (cases "k = x")
    case True
    have "filter (\<lambda>y. f x = f y) xs = []"
      using Cons.prems(1) by (auto simp: filter_empty_conv)
    with True show ?thesis by simp
  next
    case False
    with Cons.prems have kxs: "k \<in> set xs" by simp
    have "f x \<notin> f ` set xs" using Cons.prems(1) by simp
    with kxs have "f k \<noteq> f x" by (metis imageI)
    with kxs Cons show ?thesis by simp
  qed
qed

lemma sort_key_perm:
  assumes eq: "mset xs = mset ys" and d: "distinct (map ts xs)"
  shows "sort_key ts xs = sort_key ts ys"
proof (rule properties_for_sort_key)
  show "mset (sort_key ts ys) = mset xs" using eq by simp
  show "sorted (map ts (sort_key ts ys))" by simp
  fix k assume k: "k \<in> set (sort_key ts ys)"
  have dy: "distinct (map ts ys)"
    using d eq by (metis mset_map mset_eq_imp_distinct_iff)
  have kx: "k \<in> set xs"
    using k eq by (metis mset_eq_setD set_sort)
  have "filter (\<lambda>x. ts k = ts x) (sort_key ts ys) = [k]"
    using dy k by (intro filter_key_distinct) (simp_all add: distinct_map)
  moreover have "filter (\<lambda>x. ts k = ts x) xs = [k]"
    using d kx by (rule filter_key_distinct)
  ultimately show "filter (\<lambda>x. ts k = ts x) (sort_key ts ys) = filter (\<lambda>x. ts k = ts x) xs"
    by simp
qed


lemma resolve_sorted_asof:
  assumes ex: "\<exists>q\<in>set xs. ts q \<le> t"
  shows "\<exists>p. latest_at_or_before xs t p \<and> resolve_sorted (sort_key ts xs) t = Some (price p)"
proof -
  let ?s = "sort_key ts xs"
  have srt: "sorted (map ts ?s)" by simp
  have "candidate_loop t None ?s \<noteq> None"
  proof
    assume "candidate_loop t None ?s = None"
    from candidate_loop_None [OF srt this] have "\<forall>q\<in>set xs. t < ts q" by simp
    with ex show False by force
  qed
  then obtain p where run: "candidate_loop t None ?s = Some p" by blast
  from candidate_loop_Some [OF srt run]
  have "latest_at_or_before xs t p"
    by (simp add: latest_at_or_before_def)
  with run show ?thesis
    by (auto simp: resolve_sorted_def)
qed

lemma resolve_sorted_fallback:
  assumes ne: "xs \<noteq> []" and after: "\<forall>q\<in>set xs. t < ts q"
  shows "\<exists>p. nearest_preferring_earlier xs t p \<and> resolve_sorted (sort_key ts xs) t = Some (price p)"
proof -
  let ?s = "sort_key ts xs"
  have srt: "sorted (map ts ?s)" by simp
  from ne have "?s \<noteq> []"
    by (metis length_sort length_0_conv)
  then obtain s0 rest where s: "?s = s0 # rest"
    by (cases ?s) auto
  have mem: "set ?s = set xs" by simp
  have s0: "s0 \<in> set xs" using s mem by (metis list.set_intros(1))
  have low: "\<forall>q\<in>set xs. ts s0 \<le> ts q"
    using srt mem unfolding s by auto
  have none: "candidate_loop t None ?s = None"
    using after mem by (intro candidate_loop_all_after) simp
  have dist: "\<bar>ts s0 - t\<bar> \<le> \<bar>ts p - t\<bar>" if "p \<in> set ?s" for p
  proof -
    from that have p: "p \<in> set xs" by simp
    from after p s0 low have "t < ts p" "t < ts s0" "ts s0 \<le> ts p" by blast+
    then show ?thesis by linarith
  qed
  have keep: "closest_loop t s0 \<bar>ts s0 - t\<bar> ?s = s0"
    using dist by (intro closest_loop_keep) blast
  have res: "resolve_sorted ?s t = Some (price s0)"
    unfolding resolve_sorted_def none using keep by (simp add: s)
  have "nearest_preferring_earlier xs t s0"
    using s0 low dist mem by (simp add: nearest_preferring_earlier_def)
  with res show ?thesis by blast
qed

lemma resolve_sorted_not_None:
  assumes ne: "xs \<noteq> []"
  shows "resolve_sorted (sort_key ts xs) t \<noteq> None"
proof (cases "\<exists>q\<in>set xs. ts q \<le> t")
  case True
  from resolve_sorted_asof [OF True] show ?thesis by auto
next
  case False
  then have "\<forall>q\<in>set xs. t < ts q" by auto
  from resolve_sorted_fallback [OF ne this] show ?thesis by auto
qed

text \<open>
  C2. For an instrument with at least one observation: when some observation is at or
  before \<open>t\<close>, \<^verbatim>\<open>priceAt\<close> returns the price of the latest such observation; when none
  is, it returns the price of an observation at minimal absolute distance from \<open>t\<close>, the
  earlier one among equally distant ones. \<^verbatim>\<open>priceAt\<close> returns null exactly when the
  symbol is not found or the found instrument has no observation.
\<close>

theorem priceAt_spec:
  "(case find (\<lambda>x. symbol x = symb) etfs of
      None \<Rightarrow> priceAt etfs symb t = None
    | Some e \<Rightarrow>
        (priceAt etfs symb t = None \<longleftrightarrow> prices e = []) \<and>
        ((\<exists>q\<in>set (prices e). ts q \<le> t) \<longrightarrow>
           (\<exists>p. latest_at_or_before (prices e) t p \<and> priceAt etfs symb t = Some (price p))) \<and>
        (prices e \<noteq> [] \<and> (\<forall>q\<in>set (prices e). t < ts q) \<longrightarrow>
           (\<exists>p. nearest_preferring_earlier (prices e) t p
                \<and> priceAt etfs symb t = Some (price p))))"
proof (cases "find (\<lambda>x. symbol x = symb) etfs")
  case None
  then show ?thesis by (simp add: priceAt_def)
next
  case (Some e)
  show ?thesis
  proof (cases "prices e = []")
    case True
    with Some show ?thesis by (simp add: priceAt_def)
  next
    case False
    have eq: "priceAt etfs symb t = resolve_sorted (sort_key ts (prices e)) t"
      using Some False by (simp add: priceAt_def)
    show ?thesis
      using Some False resolve_sorted_not_None [OF False, of t]
        resolve_sorted_asof [of "prices e" t] resolve_sorted_fallback [OF False, of t]
      by (simp add: eq)
  qed
qed

theorem priceAt_spec_witness:
  "(\<exists>q\<in>set (prices (hd scenario_etfs)). ts q \<le> 150)
   \<and> priceAt scenario_etfs ''AAA'' 150 = Some 10
   \<and> list_all (\<lambda>q. 50 < ts q) (prices (hd scenario_etfs))
   \<and> priceAt scenario_etfs ''AAA'' 50 = Some 10
   \<and> priceAt scenario_etfs ''BBB'' 50 = None"
  using priceAt_spec [of scenario_etfs "''AAA''" 150] priceAt_spec [of scenario_etfs "''AAA''" 50]
    priceAt_spec [of scenario_etfs "''BBB''" 50]
  by (auto simp: scenario_etfs_def latest_at_or_before_def nearest_preferring_earlier_def)

lemma sorted_last_max:
  fixes f :: "'a \<Rightarrow> int"
  shows "sorted (map f xs) \<Longrightarrow> q \<in> set xs \<Longrightarrow> f q \<le> f (last xs)"
proof (induction xs)
  case Nil
  then show ?case by simp
next
  case (Cons x xs)
  show ?case
  proof (cases "xs = []")
    case True
    with Cons.prems show ?thesis by simp
  next
    case False
    then have l: "last xs \<in> set xs" by (rule last_in_set)
    from Cons.prems have low: "\<forall>z\<in>set xs. f x \<le> f z" and srt: "sorted (map f xs)"
      by auto
    show ?thesis
    proof (cases "q = x")
      case True
      with low l False show ?thesis by simp
    next
      case q: False
      with Cons.prems have "q \<in> set xs" by simp
      from Cons.IH [OF srt this] False show ?thesis by simp
    qed
  qed
qed

lemma foldl_later_obs_max:
  "foldl later_obs a bs \<in> set (a # bs) \<and> (\<forall>q\<in>set (a # bs). ts q \<le> ts (foldl later_obs a bs))"
proof -
  let ?s = "sort_key ts (a # bs)"
  have srt: "sorted (map ts ?s)" by (rule sorted_sort_key)
  have ne: "?s \<noteq> []" by (metis length_sort list.size(3) nat.distinct(1) length_Cons)
  have mem: "set ?s = set (a # bs)" by (rule set_sort)
  have "last ?s \<in> set ?s" using ne by (rule last_in_set)
  moreover have "\<forall>q\<in>set ?s. ts q \<le> ts (last ?s)"
    using sorted_last_max [OF srt] by blast
  ultimately show ?thesis
    unfolding mem last_sort_key_Cons by blast
qed

text \<open>
  C3. \<^verbatim>\<open>latestPrice\<close> returns the price of an observation with the maximum timestamp,
  null when there is none; and for every query time at or after the last observation,
  \<^verbatim>\<open>priceAt\<close> equals \<^verbatim>\<open>latestPrice\<close>.
\<close>

theorem latestPrice_spec:
  "(case find (\<lambda>x. symbol x = symb) etfs of
      None \<Rightarrow> latestPrice etfs symb = None \<and> priceAt etfs symb t = latestPrice etfs symb
    | Some e \<Rightarrow>
        (if prices e = [] then latestPrice etfs symb = None
         else \<exists>p\<in>set (prices e). (\<forall>q\<in>set (prices e). ts q \<le> ts p)
                \<and> latestPrice etfs symb = Some (price p)) \<and>
        ((\<forall>q\<in>set (prices e). ts q \<le> t) \<longrightarrow> priceAt etfs symb t = latestPrice etfs symb))"
proof (cases "find (\<lambda>x. symbol x = symb) etfs")
  case None
  then show ?thesis by (simp add: priceAt_def latestPrice_def)
next
  case (Some e)
  show ?thesis
  proof (cases "prices e")
    case Nil
    with Some show ?thesis by (simp add: priceAt_def latestPrice_def)
  next
    case (Cons a bs)
    have lp: "latestPrice etfs symb = Some (price (foldl later_obs a bs))"
      using Some Cons by (simp add: latestPrice_def)
    have pa: "priceAt etfs symb t = Some (price (foldl later_obs a bs))"
      if all: "\<forall>q\<in>set (prices e). ts q \<le> t"
    proof -
      let ?s = "sort_key ts (a # bs)"
      have ne: "?s \<noteq> []" by (metis length_sort list.size(3) nat.distinct(1) length_Cons)
      have "\<forall>q\<in>set ?s. ts q \<le> t" using all Cons unfolding set_sort by simp
      from candidate_loop_all_before [OF this ne]
      have "resolve_sorted ?s t = Some (price (last ?s))"
        by (simp add: resolve_sorted_def)
      then show ?thesis
        using Some Cons by (simp only: priceAt_def last_sort_key_Cons) simp
    qed
    show ?thesis
      using Some Cons lp pa foldl_later_obs_max [of a bs] by auto
  qed
qed

theorem latestPrice_spec_witness:
  "list_all (\<lambda>q. ts q \<le> 250) (prices (hd scenario_etfs))
   \<and> latestPrice scenario_etfs ''AAA'' = Some 20
   \<and> priceAt scenario_etfs ''AAA'' 250 = Some 20"
  using latestPrice_spec [of scenario_etfs "''AAA''" 250]
  by (auto simp: scenario_etfs_def)

lemma find_append_hit:
  "find P (xs @ y # ys) = (case find P xs of Some x \<Rightarrow> Some x | None \<Rightarrow> if P y then Some y else find P ys)"
  by (induction xs) auto

text \<open>
  C10. When the observations of an instrument have pairwise distinct timestamps,
  \<^verbatim>\<open>priceAt\<close> returns the same result for every permutation of the stored price list.
\<close>

theorem priceAt_order_independent:
  assumes "mset xs = mset ys" and "distinct (map ts xs)"
  shows "priceAt (es1 @ e\<lparr>prices := xs\<rparr> # es2) symb t
       = priceAt (es1 @ e\<lparr>prices := ys\<rparr> # es2) symb t"
proof -
  have s: "sort_key ts xs = sort_key ts ys"
    using assms by (rule sort_key_perm)
  have e: "xs = [] \<longleftrightarrow> ys = []"
    using assms(1) by (metis mset_zero_iff)
  show ?thesis
    by (auto simp: priceAt_def find_append_hit s e split: option.splits)
qed


theorem priceAt_order_independent_witness:
  "mset [\<lparr>ts = 100, price = 10\<rparr>, \<lparr>ts = 200, price = 20\<rparr>]
     = mset [\<lparr>ts = 200, price = 20\<rparr>, \<lparr>ts = 100, price = 10\<rparr>]
   \<and> distinct (map ts [\<lparr>ts = 100, price = 10::real\<rparr>, \<lparr>ts = 200, price = 20\<rparr>])
   \<and> priceAt scenario_etfs ''AAA'' 150
       = priceAt [\<lparr>symbol = ''AAA'', name = ''AAA'',
                   prices = [\<lparr>ts = 200, price = 20\<rparr>, \<lparr>ts = 100, price = 10\<rparr>]\<rparr>] ''AAA'' 150"
  using priceAt_order_independent
    [of "[\<lparr>ts = 100, price = 10\<rparr>, \<lparr>ts = 200, price = 20\<rparr>]"
        "[\<lparr>ts = 200, price = 20\<rparr>, \<lparr>ts = 100, price = 10\<rparr>]"
        "[]" "\<lparr>symbol = ''AAA'', name = ''AAA'', prices = []\<rparr>" "[]" "''AAA''" 150]
  by (simp add: scenario_etfs_def)


subsection \<open>Goal projection\<close>













lemma floorlog2_real_bounds:
  assumes "0 < n"
  shows "2 powr (real (floorlog 2 (nat n)) - 1) \<le> real_of_int n"
    and "real_of_int n < 2 powr (real (floorlog 2 (nat n)))"
proof -
  define a where "a = floorlog 2 (nat n)"
  have pos: "0 < nat n" using assms by simp
  from floorlog_bounds [OF pos, of 2]
  have lo: "2 ^ (a - 1) \<le> nat n" and hi: "nat n < 2 ^ a"
    by (simp_all add: a_def)
  have a: "0 < a"
    using pos by (simp add: a_def floorlog_def)
  have "real (nat n) = real_of_int n" using assms by simp
  moreover have "(2::real) ^ (a - 1) \<le> real (nat n)"
    using lo by (metis of_nat_le_iff of_nat_numeral of_nat_power)
  moreover have "real (nat n) < (2::real) ^ a"
    using hi by (metis of_nat_less_iff of_nat_numeral of_nat_power)
  moreover have "(2::real) powr (real a - 1) = 2 ^ (a - 1)"
    using a by (simp add: powr_realpow [symmetric] of_nat_diff)
  moreover have "(2::real) powr (real a) = 2 ^ a"
    by (simp add: powr_realpow [symmetric])
  ultimately show "2 powr (real (floorlog 2 (nat n)) - 1) \<le> real_of_int n"
    and "real_of_int n < 2 powr (real (floorlog 2 (nat n)))"
    by (simp_all add: a_def)
qed

lemma floor_log2_bounds:
  assumes n: "0 < n" and d: "0 < d"
  shows "2 powr (of_int (floor_log2 n d)) \<le> real_of_int n / real_of_int d"
    and "real_of_int n / real_of_int d < 2 powr (of_int (floor_log2 n d) + 1)"
proof -
  define a where "a = real (floorlog 2 (nat n))"
  define b where "b = real (floorlog 2 (nat d))"
  define k where "k = int (floorlog 2 (nat n)) - int (floorlog 2 (nat d))"
  define N where "N = real_of_int n"
  define D where "D = real_of_int d"
  have k: "real_of_int k = a - b" by (simp add: k_def a_def b_def)
  have D: "0 < D" and N: "0 < N" using n d by (simp_all add: D_def N_def)
  from floorlog2_real_bounds [OF n] have n1: "2 powr (a - 1) \<le> N" and n2: "N < 2 powr a"
    by (simp_all add: a_def N_def)
  from floorlog2_real_bounds [OF d] have d1: "2 powr (b - 1) \<le> D" and d2: "D < 2 powr b"
    by (simp_all add: b_def D_def)
  have up: "N / D < 2 powr (real_of_int k + 1)"
  proof -
    have "N / D < 2 powr a / D" using n2 D by (simp add: divide_strict_right_mono)
    also have "\<dots> \<le> 2 powr a / 2 powr (b - 1)"
      using d1 by (simp add: frac_le)
    also have "\<dots> = 2 powr (a - (b - 1))"
      by (simp only: powr_diff)
    also have "a - (b - 1) = real_of_int k + 1"
      by (simp add: k)
    finally show ?thesis .
  qed
  have low: "2 powr (real_of_int k - 1) \<le> N / D"
  proof -
    have "real_of_int k - 1 = (a - 1) - b" by (simp add: k)
    then have "2 powr (real_of_int k - 1) = 2 powr (a - 1) / 2 powr b"
      by (simp only: powr_diff)
    also have "\<dots> \<le> N / 2 powr b" using n1 by (simp add: divide_right_mono)
    also have "\<dots> \<le> N / D" using d2 D N by (simp add: frac_le)
    finally show ?thesis .
  qed
  have test: "(if 0 \<le> k then d * 2 ^ nat k \<le> n else d \<le> n * 2 ^ nat (- k))
        \<longleftrightarrow> 2 powr (real_of_int k) \<le> N / D"
  proof (cases "0 \<le> k")
    case True
    then have p: "2 powr (real_of_int k) = (2::real) ^ nat k"
      by (simp add: powr_realpow [symmetric])
    have "d * 2 ^ nat k \<le> n \<longleftrightarrow> real_of_int (d * 2 ^ nat k) \<le> real_of_int n"
      by (simp only: of_int_le_iff)
    also have "\<dots> \<longleftrightarrow> 2 ^ nat k \<le> N / D"
      using D by (simp add: N_def D_def field_simps)
    finally show ?thesis using True by (simp add: p)
  next
    case False
    then have p: "2 powr (real_of_int k) = 1 / (2::real) ^ nat (- k)"
      by (simp add: powr_realpow [symmetric] powr_minus_divide [symmetric])
    have "d \<le> n * 2 ^ nat (- k) \<longleftrightarrow> real_of_int d \<le> real_of_int (n * 2 ^ nat (- k))"
      by (simp only: of_int_le_iff)
    also have "\<dots> \<longleftrightarrow> 1 / 2 ^ nat (- k) \<le> N / D"
      using D by (simp add: N_def D_def field_simps)
    finally show ?thesis using False by (simp add: p)
  qed
  show "2 powr (of_int (floor_log2 n d)) \<le> real_of_int n / real_of_int d"
    using test low
    by (auto simp: floor_log2_def Let_def N_def D_def simp flip: k_def)
  have "\<not> 2 powr (real_of_int k) \<le> N / D \<Longrightarrow> N / D < 2 powr (real_of_int (k - 1) + 1)"
    by simp
  then show "real_of_int n / real_of_int d < 2 powr (of_int (floor_log2 n d) + 1)"
    using test up
    by (auto simp: floor_log2_def Let_def N_def D_def simp flip: k_def)
qed


lemma floor_log2_eq:
  assumes n: "0 < n" and d: "0 < d"
  shows "floor_log2 n d = \<lfloor>log 2 (real_of_int n / real_of_int d)\<rfloor>"
proof -
  have v: "0 < real_of_int n / real_of_int d" using n d by simp
  from floor_log2_bounds [OF n d] v
  have "real_of_int (floor_log2 n d) \<le> log 2 (real_of_int n / real_of_int d)"
    and "log 2 (real_of_int n / real_of_int d) < real_of_int (floor_log2 n d) + 1"
    by (simp_all add: le_log_iff log_less_iff)
  then show ?thesis by linarith
qed




lemma floor_log2_unique:
  assumes "0 < n" "0 < d"
    and "2 powr (real_of_int k) \<le> real_of_int n / real_of_int d"
    and "real_of_int n / real_of_int d < 2 powr (real_of_int k + 1)"
  shows "floor_log2 n d = k"
proof -
  have v: "0 < real_of_int n / real_of_int d" using assms(1,2) by simp
  from assms(3,4) v
  have "real_of_int k \<le> log 2 (real_of_int n / real_of_int d)"
    and "log 2 (real_of_int n / real_of_int d) < real_of_int k + 1"
    by (simp_all add: le_log_iff log_less_iff)
  then have "\<lfloor>log 2 (real_of_int n / real_of_int d)\<rfloor> = k" by linarith
  then show ?thesis by (simp add: floor_log2_eq [OF assms(1,2)])
qed





lemma floor_log2_11_01: "floor_log2 39631676720860368 3602879701896397 = 3"
  by (rule floor_log2_unique) (simp_all add: powr_numeral)

lemma floor_log2_303_101: "floor_log2 17057383588665754 5685794529555251 = 1"
  by (rule floor_log2_unique) (simp_all add: powr_numeral)

lemmas js_div_eval =
  js_div_def quotient_num_def quotient_den_def round_scaled_def round_half_even_def Let_def



lemma js_div_11_01:
  "js_div \<lparr>mantissa = 2476979795053773, exponent = - 51\<rparr>
          \<lparr>mantissa = 3602879701896397, exponent = - 55\<rparr>
     = Fin \<lparr>mantissa = 6192449487634432, exponent = - 49\<rparr>"
  by (simp add: js_div_eval floor_log2_11_01)

lemma js_div_303_101:
  "js_div \<lparr>mantissa = 8528691794332877, exponent = - 48\<rparr>
          \<lparr>mantissa = 5685794529555251, exponent = - 49\<rparr>
     = Fin \<lparr>mantissa = 6755399441055744, exponent = - 51\<rparr>"
  by (simp add: js_div_eval floor_log2_303_101)

lemma js_div_1e308_1em10:
  "js_div \<lparr>mantissa = 5010420900022432, exponent = 971\<rparr>
          \<lparr>mantissa = 7737125245533627, exponent = - 86\<rparr>
     = PosInf"
proof -
  let ?x = "\<lparr>mantissa = 5010420900022432, exponent = 971\<rparr>"
  let ?y = "\<lparr>mantissa = 7737125245533627, exponent = - 86\<rparr>"
  have n: "quotient_num ?x ?y = 5010420900022432 * 2 ^ 1057"
    by (simp add: quotient_num_def)
  have d: "quotient_den ?x ?y = 7737125245533627"
    by (simp add: quotient_den_def)
  have fl: "floor_log2 (5010420900022432 * 2 ^ 1057) 7737125245533627 = 1056"
    by (rule floor_log2_unique) (simp_all add: powr_numeral)
  have x: "mantissa ?x \<noteq> 0" by simp
  show ?thesis
    by (simp only: js_div_def Let_def n d fl x if_False) simp
qed

lemma monthsToReach_examples:
  "monthsToReach \<lparr>mantissa = 2476979795053773, exponent = - 51\<rparr>
                 \<lparr>mantissa = 3602879701896397, exponent = - 55\<rparr> = Finite 11"
  "monthsToReach \<lparr>mantissa = 8528691794332877, exponent = - 48\<rparr>
                 \<lparr>mantissa = 5685794529555251, exponent = - 49\<rparr> = Finite 3"
  "monthsToReach \<lparr>mantissa = 5010420900022432, exponent = 971\<rparr>
                 \<lparr>mantissa = 7737125245533627, exponent = - 86\<rparr> = Infinity"
  by (simp_all add: monthsToReach_def math_max_zero_def math_ceil_def
      js_div_11_01 js_div_303_101 js_div_1e308_1em10)




subsection \<open>Timeline\<close>

lemma set_add_set: "set (set_add x times_set) = insert x (set times_set)"
  by (auto simp: set_add_def)

lemma set_add_distinct: "distinct times_set \<Longrightarrow> distinct (set_add x times_set)"
  by (simp add: set_add_def)

lemma foldl_set_add_set:
  "set (foldl (\<lambda>times_set p. set_add (f p) times_set) acc xs) = set acc \<union> f ` set xs"
  by (induction xs arbitrary: acc) (auto simp: set_add_set)

lemma foldl_set_add_distinct:
  "distinct acc \<Longrightarrow> distinct (foldl (\<lambda>times_set p. set_add (f p) times_set) acc xs)"
  by (induction xs arbitrary: acc) (simp_all add: set_add_distinct)

lemma foldl_prices_set:
  "set (foldl (\<lambda>times_set e. foldl (\<lambda>times_set p. set_add (ts p) times_set) times_set (prices e)) acc etfs)
     = set acc \<union> (\<Union>e\<in>set etfs. ts ` set (prices e))"
  by (induction etfs arbitrary: acc) (auto simp: foldl_set_add_set)

lemma foldl_prices_distinct:
  "distinct acc \<Longrightarrow>
   distinct (foldl (\<lambda>times_set e. foldl (\<lambda>times_set p. set_add (ts p) times_set) times_set (prices e)) acc etfs)"
  by (induction etfs arbitrary: acc) (simp_all add: foldl_set_add_distinct)

lemma timeline_times_set:
  "set (timeline_times etfs purchases)
     = (\<Union>e\<in>set etfs. ts ` set (prices e)) \<union> buy_ts ` set purchases"
  by (simp add: timeline_times_def foldl_set_add_set foldl_prices_set)

lemma timeline_times_distinct: "distinct (timeline_times etfs purchases)"
  by (simp add: timeline_times_def foldl_set_add_distinct foldl_prices_distinct)

text \<open>
  C5. Without range bounds, the sampled timeline holds exactly the price-observation
  timestamps of all instruments and the purchase timestamps, in strictly ascending order,
  so without duplicates, also when a price timestamp equals a purchase timestamp (150 in
  the example).
\<close>

theorem timeline_points_spec:
  "set (timeline_points etfs purchases None None)
     = (\<Union>e\<in>set etfs. ts ` set (prices e)) \<union> buy_ts ` set purchases
   \<and> sorted_wrt (<) (timeline_points etfs purchases None None)
   \<and> timeline_points
        [\<lparr>symbol = ''AAA'', name = ''AAA'', prices = [\<lparr>ts = 200, price = 20\<rparr>, \<lparr>ts = 150, price = 10\<rparr>]\<rparr>]
        [\<lparr>buy_ts = 150, buy_symbol = ''AAA'', qty = 5\<rparr>, \<lparr>buy_ts = 100, buy_symbol = ''AAA'', qty = 1\<rparr>]
        None None = [100, 150, 200]"
proof -
  have "sorted_wrt (<) (timeline_points etfs purchases None None)"
    by (simp add: timeline_points_def strict_sorted_iff timeline_times_distinct)
  moreover have "set (timeline_points etfs purchases None None)
     = (\<Union>e\<in>set etfs. ts ` set (prices e)) \<union> buy_ts ` set purchases"
    by (simp add: timeline_points_def timeline_times_set)
  moreover have "timeline_points
        [\<lparr>symbol = ''AAA'', name = ''AAA'', prices = [\<lparr>ts = 200, price = 20\<rparr>, \<lparr>ts = 150, price = 10\<rparr>]\<rparr>]
        [\<lparr>buy_ts = 150, buy_symbol = ''AAA'', qty = 5\<rparr>, \<lparr>buy_ts = 100, buy_symbol = ''AAA'', qty = 1\<rparr>]
        None None = [100, 150, 200]"
    by (simp add: timeline_points_def timeline_times_def set_add_def)
  ultimately show ?thesis by blast
qed

subsection \<open>Invested series\<close>

lemma foldl_add_cost: "foldl (add_cost etfs) acc ps = acc + costBasis etfs ps"
  by (induction ps arbitrary: acc)
     (simp_all add: add_cost_def costBasis_def contribution_def split: option.splits)

text \<open>
  What the loop computes: the running total is never reset, so point \<open>i\<close> carries the
  sum of \<open>investedAt\<close> over the points up to \<open>i\<close>.
\<close>

lemma seriesInvested_from_nth:
  "i < length pts \<Longrightarrow>
   seriesInvested_from etfs ps acc pts ! i
     = (pts ! i, acc + (\<Sum>t\<leftarrow>take (Suc i) pts. investedAt etfs ps t))"
proof (induction pts arbitrary: acc i)
  case Nil
  then show ?case by simp
next
  case (Cons t rest)
  show ?case
  proof (cases i)
    case 0
    then show ?thesis by (simp add: foldl_add_cost investedAt_def Let_def)
  next
    case (Suc j)
    with Cons.prems have "j < length rest" by simp
    from Cons.IH [OF this] Suc show ?thesis
      by (simp add: foldl_add_cost investedAt_def Let_def)
  qed
qed

text \<open>
  C1. The claim: point \<open>i\<close> of the invested series equals \<open>investedAt\<close> at the
  \<open>i\<close>-th sample timestamp. In the AAA scenario the timeline is 100, 150, 200; the
  series of the code is 0, 50, 100 where independent recomputation gives 0, 50, 50: the
  purchase at 150 is counted again at 200.
\<close>

theorem seriesInvested_scenario:
  "timeline_points scenario_etfs scenario_purchases None None = [100, 150, 200]
   \<and> seriesInvested scenario_etfs scenario_purchases [100, 150, 200]
       = [(100, 0), (150, 50), (200, 100)]
   \<and> map (\<lambda>t. (t, investedAt scenario_etfs scenario_purchases t)) [100, 150, 200]
       = [(100, 0), (150, 50), (200, 50)]"
  by (simp add: timeline_points_def timeline_times_def set_add_def scenario_etfs_def
      seriesInvested_def investedAt_def costBasis_def contribution_def add_cost_def
      scenario_purchases_def scenario_priceAt [unfolded scenario_etfs_def])


subsection \<open>No effect on the stored data\<close>

lemma preserved_refl: "preserved st st"
  by (simp add: preserved_def)

lemma preserved_trans: "preserved st st1 \<Longrightarrow> preserved st1 st2 \<Longrightarrow> preserved st st2"
proof -
  assume a: "preserved st st1" and b: "preserved st1 st2"
  from a have "length (take (length (h_arrays st)) (h_arrays st1)) = length (h_arrays st)"
    by (simp add: preserved_def)
  then have le: "length (h_arrays st) \<le> length (h_arrays st1)"
    by simp
  have "take (length (h_arrays st)) (h_arrays st2)
        = take (length (h_arrays st)) (take (length (h_arrays st1)) (h_arrays st2))"
    using le by (simp add: min_def)
  also have "\<dots> = h_arrays st"
    using a b by (simp add: preserved_def)
  finally show ?thesis
    using a b by (simp add: preserved_def)
qed

lemma priceAt_st_preserved: "preserved st (snd (priceAt_st symb t st))"
  by (simp add: priceAt_st_def preserved_def array_copy_def array_sort_def
      split: option.splits)

lemma latestPrice_st_preserved: "preserved st (snd (latestPrice_st symb st))"
  by (simp add: latestPrice_st_def preserved_def split: option.splits list.splits)

lemma totals_loop_st_preserved: "preserved st (snd (totals_loop_st acc ps st))"
proof (induction ps arbitrary: acc st)
  case Nil
  show ?case by (cases acc) (simp add: preserved_refl)
next
  case (Cons p ps)
  obtain a b where acc: "acc = (a, b)" by (cases acc)
  obtain u1 st1 where p1: "priceAt_st (buy_symbol p) (buy_ts p) st = (u1, st1)"
    by (cases "priceAt_st (buy_symbol p) (buy_ts p) st")
  obtain u2 st2 where p2: "latestPrice_st (buy_symbol p) st1 = (u2, st2)"
    by (cases "latestPrice_st (buy_symbol p) st1")
  have "preserved st st1"
    using priceAt_st_preserved [of st "buy_symbol p" "buy_ts p"] p1 by simp
  moreover have "preserved st1 st2"
    using latestPrice_st_preserved [of st1 "buy_symbol p"] p2 by simp
  ultimately have "preserved st st2" by (rule preserved_trans)
  then show ?case
    unfolding acc using p1 p2 Cons.IH [where st = st2]
    by (auto simp: Let_def intro: preserved_trans)
qed

text \<open>
  C9. After \<^verbatim>\<open>priceAt\<close>, \<^verbatim>\<open>latestPrice\<close> and \<^verbatim>\<open>computeTotals\<close> the instrument objects,
  the purchases and every stored price array, with its element order, are as before:
  \<^verbatim>\<open>priceAt\<close> sorts a copy. On the store with the descending list, the list stays
  descending and the ascending copy is a new array.
\<close>

theorem lookups_preserve_store:
  "preserved st (snd (priceAt_st symb t st))
   \<and> preserved st (snd (latestPrice_st symb st))
   \<and> preserved st (snd (computeTotals_st st))
   \<and> h_arrays (snd (priceAt_st ''AAA'' 150 unsorted_heap))
       = [[\<lparr>ts = 200, price = 20\<rparr>, \<lparr>ts = 100, price = 10\<rparr>],
          [\<lparr>ts = 100, price = 10\<rparr>, \<lparr>ts = 200, price = 20\<rparr>]]"
proof -
  obtain a b st' where run: "totals_loop_st (0, 0) (h_purchases st) st = ((a, b), st')"
    by (metis surj_pair)
  have "preserved st (snd (computeTotals_st st))"
    using totals_loop_st_preserved [of st "(0, 0)" "h_purchases st"]
    by (simp add: computeTotals_st_def Let_def run)
  moreover have "h_arrays (snd (priceAt_st ''AAA'' 150 unsorted_heap))
       = [[\<lparr>ts = 200, price = 20\<rparr>, \<lparr>ts = 100, price = 10\<rparr>],
          [\<lparr>ts = 100, price = 10\<rparr>, \<lparr>ts = 200, price = 20\<rparr>]]"
    by (simp add: priceAt_st_def unsorted_heap_def array_copy_def array_sort_def)
  ultimately show ?thesis
    by (simp add: priceAt_st_preserved latestPrice_st_preserved)
qed

text \<open>Sorting the stored array itself would be visible.\<close>

lemma array_sort_in_place_changes:
  "\<not> preserved unsorted_heap (array_sort 0 unsorted_heap)"
  by (simp add: preserved_def array_sort_def unsorted_heap_def)

text \<open>The store-passing functions return what the functions above return.\<close>

lemma find_view:
  "find (\<lambda>x. symbol x = symb) (map (view_etf st) es)
     = map_option (view_etf st) (find (\<lambda>x. o_symbol x = symb) es)"
  by (induction es) (simp_all add: view_etf_def)

lemma priceAt_st_result: "fst (priceAt_st symb t st) = priceAt (view_etfs st) symb t"
  by (simp add: priceAt_st_def priceAt_def view_etfs_def find_view array_copy_def
      array_sort_def view_etf_def split: option.splits)

lemma latestPrice_st_result: "fst (latestPrice_st symb st) = latestPrice (view_etfs st) symb"
  by (simp add: latestPrice_st_def latestPrice_def view_etfs_def find_view view_etf_def
      split: option.splits list.splits)

lemma preserved_view:
  assumes wf: "wf_heap st" and pr: "preserved st st'"
  shows "view_etfs st' = view_etfs st \<and> wf_heap st'"
proof -
  from pr have take_eq: "take (length (h_arrays st)) (h_arrays st') = h_arrays st"
    and etfs_eq: "h_etfs st' = h_etfs st"
    by (simp_all add: preserved_def)
  from take_eq have "length (take (length (h_arrays st)) (h_arrays st')) = length (h_arrays st)"
    by simp
  then have le: "length (h_arrays st) \<le> length (h_arrays st')" by simp
  have same: "h_arrays st' ! a = h_arrays st ! a" if "a < length (h_arrays st)" for a
    using that take_eq by (metis nth_take)
  have "view_etf st' e = view_etf st e" if "e \<in> set (h_etfs st)" for e
    using that wf same by (simp add: view_etf_def wf_heap_def list_all_iff)
  then have "view_etfs st' = view_etfs st"
    by (simp add: view_etfs_def etfs_eq)
  moreover have "wf_heap st'"
    using wf le by (auto simp: wf_heap_def etfs_eq list_all_iff)
  ultimately show ?thesis by simp
qed

lemma totals_loop_st_result:
  "wf_heap st \<Longrightarrow> fst (totals_loop_st acc ps st) = totals_loop (view_etfs st) acc ps"
proof (induction ps arbitrary: acc st)
  case Nil
  show ?case by (cases acc) simp
next
  case (Cons p ps)
  obtain a b where acc: "acc = (a, b)" by (cases acc)
  obtain u1 st1 where p1: "priceAt_st (buy_symbol p) (buy_ts p) st = (u1, st1)"
    by (cases "priceAt_st (buy_symbol p) (buy_ts p) st")
  obtain u2 st2 where p2: "latestPrice_st (buy_symbol p) st1 = (u2, st2)"
    by (cases "latestPrice_st (buy_symbol p) st1")
  have pr1: "preserved st st1"
    using priceAt_st_preserved [of st "buy_symbol p" "buy_ts p"] p1 by simp
  have pr2: "preserved st1 st2"
    using latestPrice_st_preserved [of st1 "buy_symbol p"] p2 by simp
  from preserved_view [OF Cons.prems pr1]
  have v1: "view_etfs st1 = view_etfs st" and wf1: "wf_heap st1" by simp_all
  from preserved_view [OF wf1 pr2]
  have v2: "view_etfs st2 = view_etfs st" and wf2: "wf_heap st2" by (simp_all add: v1)
  have u1: "u1 = priceAt (view_etfs st) (buy_symbol p) (buy_ts p)"
    using priceAt_st_result [of "buy_symbol p" "buy_ts p" st] p1 by simp
  have u2: "u2 = latestPrice (view_etfs st) (buy_symbol p)"
    using latestPrice_st_result [of "buy_symbol p" st1] p2 v1 by simp
  show ?case
    unfolding acc using Cons.IH [OF wf2] p1 p2
    by (simp add: Let_def v2 u1 [symmetric] u2 [symmetric])
qed

lemma computeTotals_st_result:
  assumes "wf_heap st"
  shows "fst (computeTotals_st st) = computeTotals (view_etfs st) (h_purchases st)"
proof -
  obtain a b st' where run: "totals_loop_st (0, 0) (h_purchases st) st = ((a, b), st')"
    by (metis surj_pair)
  from totals_loop_st_result [OF assms, of "(0, 0)" "h_purchases st"]
  have "totals_loop (view_etfs st) (0, 0) (h_purchases st) = (a, b)"
    by (simp add: run)
  then show ?thesis
    by (simp add: computeTotals_st_def computeTotals_def Let_def run)
qed

subsection \<open>Import\<close>

lemma isArray_prop_object:
  "isArray (get_prop data k) \<Longrightarrow> truthy (Some data) \<and> typeof_object data"
  by (cases data) simp_all

lemma importAll_invalid:
  assumes "\<not> valid_document parsed"
  shows "importAll refresh_throws render_throws parsed st = import_failed st"
proof (cases parsed)
  case None
  then show ?thesis by (simp add: importAll_def)
next
  case (Some data)
  with assms have "\<not> isArray (get_prop data ''etfs'') \<or> \<not> isArray (get_prop data ''purchases'')"
    by (simp add: valid_document_def)
  with Some show ?thesis by (simp add: importAll_def)
qed

lemma alerts_save [simp]:
  "alerts (saveEtfs st) = alerts st" "alerts (savePurchases st) = alerts st"
  "alerts (saveGoals st) = alerts st" "alerts (saveUi st) = alerts st"
  by (simp_all add: saveEtfs_def savePurchases_def saveGoals_def saveUi_def storage_set_def)

lemma importAll_accepts:
  assumes "alerts (importAll refresh_throws render_throws parsed st) = alerts st @ [ImportSucceeded]"
  shows "valid_document parsed"
proof (rule ccontr)
  assume "\<not> valid_document parsed"
  from importAll_invalid [OF this] assms show False
    by (simp add: import_failed_def)
qed

text \<open>
  C7. A document whose \<^verbatim>\<open>etfs\<close> and \<^verbatim>\<open>purchases\<close> are not both arrays, an input that
  does not parse included, leaves the four variables and the storage unchanged and shows
  the failure alert; and the success alert is shown only for a document that has both as
  arrays.
\<close>

theorem importAll_atomic:
  "(\<not> valid_document parsed \<longrightarrow>
      v_etfs (importAll refresh_throws render_throws parsed st) = v_etfs st
      \<and> v_purchases (importAll refresh_throws render_throws parsed st) = v_purchases st
      \<and> v_goals (importAll refresh_throws render_throws parsed st) = v_goals st
      \<and> v_ui (importAll refresh_throws render_throws parsed st) = v_ui st
      \<and> localStorage (importAll refresh_throws render_throws parsed st) = localStorage st
      \<and> alerts (importAll refresh_throws render_throws parsed st) = alerts st @ [ImportFailed])
   \<and> (alerts (importAll refresh_throws render_throws parsed st) = alerts st @ [ImportSucceeded]
        \<longrightarrow> valid_document parsed)"
  using importAll_invalid [of parsed refresh_throws render_throws st]
    importAll_accepts [of refresh_throws render_throws parsed st]
  by (auto simp: import_failed_def)

theorem importAll_atomic_witness:
  "\<not> valid_document None
   \<and> importAll False False None state0 = state0\<lparr>alerts := [ImportFailed]\<rparr>
   \<and> \<not> valid_document (Some (JObj [(''etfs'', JArr []), (''purchases'', JStr ''none'')]))
   \<and> v_etfs (importAll False False
         (Some (JObj [(''etfs'', JArr []), (''purchases'', JStr ''none'')])) state0)
       = v_etfs state0
   \<and> alerts (importAll False False
         (Some (JObj [(''etfs'', JArr []), (''purchases'', JStr ''none'')])) state0) = [ImportFailed]
   \<and> alerts (importAll False False
         (Some (JObj [(''etfs'', JArr []), (''purchases'', JArr [])])) state0)
       = alerts state0 @ [ImportSucceeded]
   \<and> valid_document (Some (JObj [(''etfs'', JArr []), (''purchases'', JArr [])]))"
proof -
  let ?bad = "Some (JObj [(''etfs'', JArr []), (''purchases'', JStr ''none'')])"
  let ?good = "Some (JObj [(''etfs'', JArr []), (''purchases'', JArr [])])"
  have n1: "\<not> valid_document None" and n2: "\<not> valid_document ?bad"
    by (simp_all add: valid_document_def)
  have ok: "alerts (importAll False False ?good state0) = alerts state0 @ [ImportSucceeded]"
    by (simp add: importAll_def state0_def Let_def)
  show ?thesis
    using n1 n2 ok importAll_atomic [of None False False state0]
      importAll_atomic [of ?bad False False state0]
      importAll_atomic [of ?good False False state0]
    by (simp add: state0_def)
qed

end
